theory Spec2Isabelle
  imports Main "HOL-Library.Word"
begin

section \<open>The ring buffer of \<^verbatim>\<open>src/stream/stdio.c\<close>\<close>

text \<open>
  The structure \<^verbatim>\<open>struct s_ring\<close> and the macros \<^verbatim>\<open>BUF_MAX\<close> and \<^verbatim>\<open>BUF_SIZE\<close> are
  declared in \<^verbatim>\<open>stream/stream_priv.h\<close>, which is not among the sources. The code uses four
  fields (\<^verbatim>\<open>start\<close>, \<^verbatim>\<open>end\<close>, \<^verbatim>\<open>full\<close>, \<^verbatim>\<open>buf\<close>); they are the fields of the record below
  (\<^verbatim>\<open>end\<close> is a keyword here, so all four carry the prefix \<open>rb_\<close>). The two macros are
  parameters of every function that uses them: \<open>BUF_MAX\<close> is the capacity \<open>C\<close> of the
  specification. The cursors are naturals: the code keeps them below \<open>BUF_MAX\<close>, where
  no arithmetic of the code on them wraps. Bytes are values of type \<^typ>\<open>char\<close>;
  the byte \<^verbatim>\<open>'\0'\<close> is \<open>NUL\<close>.
\<close>

record s_ring =
  rb_start :: nat
  rb_end :: nat
  rb_full :: bool
  rb_buf :: "char list"

abbreviation NUL :: char where
  "NUL \<equiv> CHR 0x00"

text \<open>
  The clearing of a span of the storage, \<^verbatim>\<open>for (i = a; i < b; i++) buf[i] = '\0'\<close>.
  The index is an \<^verbatim>\<open>int\<close>, a \<^verbatim>\<open>uint32_t\<close> or a \<^verbatim>\<open>uint16_t\<close>; the model counts in naturals, which is
  what the code does as long as \<open>BUF_MAX\<close> fits the index type (\<open>BUF_MAX \<le> 65535\<close>).
  A store outside the list changes nothing in the model (in C it is out of bounds).
\<close>

function zero_range :: "char list \<Rightarrow> nat \<Rightarrow> nat \<Rightarrow> char list" where
  "zero_range buf i b = (if i < b then zero_range (buf[i := NUL]) (i + 1) b else buf)"
  by pat_completeness auto
termination
  by (relation "measure (\<lambda>(buf, i, b). b - i)") auto

declare zero_range.simps [simp del]

text \<open>\<^verbatim>\<open>init_ring_buffer\<close> (lines 91-106), on the storage the structure has at boot.\<close>

definition init_ring_buffer :: "nat \<Rightarrow> s_ring \<Rightarrow> s_ring" where
  "init_ring_buffer BUF_MAX rb =
     rb\<lparr>rb_end := 0, rb_start := 0, rb_full := False,
        rb_buf := zero_range (rb_buf rb) 0 BUF_MAX\<rparr>"

text \<open>\<^verbatim>\<open>ring_buffer_write_char\<close> (lines 118-136).\<close>

definition ring_buffer_write_char :: "nat \<Rightarrow> s_ring \<Rightarrow> char \<Rightarrow> s_ring" where
  "ring_buffer_write_char BUF_MAX rb c =
     (if rb_full rb then rb
      else
        (if (rb_end rb + 1) mod BUF_MAX \<noteq> rb_start rb
         then rb\<lparr>rb_buf := (rb_buf rb)[rb_end rb := c],
                 rb_end := (rb_end rb + 1) mod BUF_MAX\<rparr>
         else rb\<lparr>rb_buf := (rb_buf rb)[rb_end rb := c], rb_full := True\<rparr>))"

text \<open>
  \<^verbatim>\<open>ring_buffer_write_digit\<close> (lines 148-157). The digit is a \<^verbatim>\<open>uint8_t\<close> below 256;
  the additions \<^verbatim>\<open>digit += '0'\<close> and \<^verbatim>\<open>digit += 'a' - 0xa\<close> happen only below 16 and do
  not wrap. A digit above 15 writes nothing.
\<close>

definition ring_buffer_write_digit :: "nat \<Rightarrow> s_ring \<Rightarrow> nat \<Rightarrow> s_ring" where
  "ring_buffer_write_digit BUF_MAX rb digit =
     (if digit < 0xa then ring_buffer_write_char BUF_MAX rb (char_of (digit + of_char CHR ''0''))
      else if digit \<le> 0xf
        then ring_buffer_write_char BUF_MAX rb (char_of (digit + (of_char CHR ''a'' - 0xa)))
      else rb)"

text \<open>
  A C string is the list of its bytes before the terminator. \<open>c_at s i\<close> is \<^verbatim>\<open>s[i]\<close>:
  the byte at \<open>i\<close>, and the terminator at the end of the list. (A list that holds a
  \<open>NUL\<close> behaves as the C string that ends there.)
\<close>

definition c_at :: "string \<Rightarrow> nat \<Rightarrow> char" where
  "c_at s i = (if i < length s then s ! i else NUL)"

text \<open>
  \<^verbatim>\<open>ring_buffer_write_string\<close> (lines 165-175); \<open>None\<close> is the null pointer. The loop
  is \<open>write_string_loop\<close>.
\<close>

function write_string_loop :: "nat \<Rightarrow> string \<Rightarrow> nat \<Rightarrow> nat \<Rightarrow> s_ring \<Rightarrow> s_ring" where
  "write_string_loop BUF_MAX str len i rb =
     (if i < len \<and> c_at str i \<noteq> NUL
      then write_string_loop BUF_MAX str len (i + 1) (ring_buffer_write_char BUF_MAX rb (c_at str i))
      else rb)"
  by pat_completeness auto
termination
  by (relation "measure (\<lambda>(BUF_MAX, str, len, i, rb). len - i)") auto

declare write_string_loop.simps [simp del]

definition ring_buffer_write_string :: "nat \<Rightarrow> s_ring \<Rightarrow> string option \<Rightarrow> nat \<Rightarrow> s_ring" where
  "ring_buffer_write_string BUF_MAX rb str len =
     (case str of None \<Rightarrow> rb | Some s \<Rightarrow> write_string_loop BUF_MAX s len 0 rb)"

text \<open>
  \<^verbatim>\<open>ring_buffer_write_number\<close> (lines 181-202). The value is a \<^verbatim>\<open>uint64_t\<close>, here a
  natural below \<open>2 ^ 64\<close> (the callers convert); division and remainder do not wrap.
  \<open>number_digits\<close> is the first loop with the assignment after it: the cells
  \<^verbatim>\<open>number[0]\<close> to \<^verbatim>\<open>number[index]\<close>, least significant digit first. The code calls it
  with bases 8, 10 and 16 only; with a base below 2 the C loop divides by zero or does
  not end, and the guard \<open>1 < base\<close> of the model ends it there.
  \<open>write_digits\<close> is the second loop, from the last cell used down to cell 0.
\<close>

function number_digits :: "nat \<Rightarrow> nat \<Rightarrow> nat list" where
  "number_digits val base =
     (if 1 < base \<and> val div base \<noteq> 0
      then (val mod base) # number_digits (val div base) base
      else [val mod base])"
  by pat_completeness auto
termination
  by (relation "measure (\<lambda>(val, base). val)") (auto intro: div_less_dividend intro!: gr0I)

declare number_digits.simps [simp del]

fun write_digits :: "nat \<Rightarrow> s_ring \<Rightarrow> nat list \<Rightarrow> s_ring" where
  "write_digits BUF_MAX rb [] = rb"
| "write_digits BUF_MAX rb (d # ds) = write_digits BUF_MAX (ring_buffer_write_digit BUF_MAX rb d) ds"

definition ring_buffer_write_number :: "nat \<Rightarrow> s_ring \<Rightarrow> nat \<Rightarrow> nat \<Rightarrow> s_ring" where
  "ring_buffer_write_number BUF_MAX rb val base =
     write_digits BUF_MAX rb (rev (number_digits val base))"

text \<open>
  \<^verbatim>\<open>print_and_reset_buffer\<close> (lines 213-240). The log channel \<^verbatim>\<open>sys_log\<close> is outside
  the library; the model records each call: the length asked for and the bytes of
  the storage from the given position on (at most that many).
\<close>

type_synonym sys_log_call = "int \<times> char list"

definition sys_log :: "int \<Rightarrow> char list \<Rightarrow> nat \<Rightarrow> sys_log_call" where
  "sys_log len buf pos = (len, take (nat len) (drop pos buf))"

definition print_and_reset_buffer ::
  "nat \<Rightarrow> nat \<Rightarrow> s_ring \<Rightarrow> sys_log_call list \<Rightarrow> s_ring \<times> sys_log_call list" where
  "print_and_reset_buffer BUF_MAX BUF_SIZE rb log =
     (rb\<lparr>rb_end := 0, rb_start := 0, rb_full := False,
         rb_buf := zero_range (rb_buf rb) 0 BUF_MAX\<rparr>,
      (if rb_end rb > rb_start rb
       then log @ [sys_log (int (rb_end rb) - int (rb_start rb)) (rb_buf rb) (rb_start rb)]
       else if rb_end rb < rb_start rb
       then log @ [sys_log (int BUF_SIZE - int (rb_start rb)) (rb_buf rb) (rb_start rb),
                   sys_log (int (rb_end rb)) (rb_buf rb) 0]
       else log))"

text \<open>
  \<^verbatim>\<open>ring_buffer_rewind\<close> (lines 247-268): the new state and the value returned. The
  length is a \<^verbatim>\<open>uint32_t\<close>; below \<open>BUF_MAX\<close> nothing wraps.
\<close>

definition ring_buffer_rewind :: "nat \<Rightarrow> s_ring \<Rightarrow> nat \<Rightarrow> s_ring \<times> nat" where
  "ring_buffer_rewind BUF_MAX rb len =
     (if len \<ge> BUF_MAX then (rb, 0)
      else if rb_end rb \<ge> len
      then (rb\<lparr>rb_buf := zero_range (rb_buf rb) (rb_end rb - len) (rb_end rb),
               rb_end := rb_end rb - len\<rparr>, len)
      else (rb\<lparr>rb_buf := zero_range (zero_range (rb_buf rb) 0 (rb_end rb))
                            (BUF_MAX - len + rb_end rb) BUF_MAX,
               rb_end := BUF_MAX - len + rb_end rb\<rparr>, len))"

text \<open>
  \<^verbatim>\<open>get_number_len\<close> (lines 279-289), with the same reading of the value and the base
  as \<open>number_digits\<close>. The result is a \<^verbatim>\<open>uint8_t\<close>; it is at most 64 for a base above 1.
\<close>

function get_number_len_loop :: "nat \<Rightarrow> nat \<Rightarrow> nat \<Rightarrow> nat" where
  "get_number_len_loop val base len =
     (if 1 < base \<and> val div base \<noteq> 0
      then get_number_len_loop (val div base) base (len + 1)
      else len)"
  by pat_completeness auto
termination
  by (relation "measure (\<lambda>(val, base, len). val)") (auto intro: div_less_dividend intro!: gr0I)

declare get_number_len_loop.simps [simp del]

definition get_number_len :: "nat \<Rightarrow> nat \<Rightarrow> nat" where
  "get_number_len val base = get_number_len_loop val base 1"


section \<open>The interpreter of one directive\<close>

text \<open>
  The variadic arguments. \<^verbatim>\<open>va_arg\<close> with a type other than that of the next argument
  is undefined in C; in the model such a call has no result (\<open>None\<close>).
  \<^item> \<open>VA_int\<close>: an argument read as \<^verbatim>\<open>int\<close>, \<^verbatim>\<open>uint32_t\<close> or \<^verbatim>\<open>physaddr_t\<close>
    (32 bits; \<^verbatim>\<open>physaddr_t\<close> is declared outside the sources and the code stores it in
    a \<^verbatim>\<open>uint32_t\<close>);
  \<^item> \<open>VA_long\<close>, \<open>VA_longlong\<close>: a \<^verbatim>\<open>long\<close> or a \<^verbatim>\<open>long long\<close>, as its signed value;
  \<^item> \<open>VA_str\<close>: a \<^verbatim>\<open>char *\<close>, \<open>None\<close> for the null pointer.
\<close>

datatype va_arg =
    VA_int "32 word"
  | VA_long int
  | VA_longlong int
  | VA_str "string option"

text \<open>
  The conversion of a signed value to the \<^verbatim>\<open>uint64_t\<close> parameter of
  \<^verbatim>\<open>get_number_len\<close> and \<^verbatim>\<open>ring_buffer_write_number\<close>: modulo \<open>2 ^ 64\<close>.
\<close>

definition to_uint64 :: "int \<Rightarrow> nat" where
  "to_uint64 v = nat (v mod 2 ^ 64)"

datatype fs_num_mode_t =
    FS_NUM_DECIMAL
  | FS_NUM_HEX
  | FS_NUM_UCHAR
  | FS_NUM_SHORT
  | FS_NUM_LONG
  | FS_NUM_LONGLONG
  | FS_NUM_UNSIGNED

text \<open>
  \<^verbatim>\<open>fs_properties_t\<close>; the fields \<^verbatim>\<open>size\<close> and \<^verbatim>\<open>consumed\<close> (both \<^verbatim>\<open>uint8_t\<close>) are
  \<open>fs_size\<close> and \<open>fs_consumed\<close>.
\<close>

record fs_properties_t =
  attr_0len :: bool
  attr_size :: bool
  fs_size :: "8 word"
  numeric_mode :: fs_num_mode_t
  started :: bool
  fs_consumed :: "8 word"

definition fs_prop_init :: fs_properties_t where
  "fs_prop_init = \<lparr>attr_0len = False, attr_size = False, fs_size = 0,
     numeric_mode = FS_NUM_DECIMAL, started = False, fs_consumed = 0\<rparr>"

text \<open>
  The padding loop \<^verbatim>\<open>for (uint32_t i = len; i < fs_prop.size; ++i)
  ring_buffer_write_char('0')\<close>, which every numeric case has.
\<close>

function pad_loop :: "nat \<Rightarrow> nat \<Rightarrow> nat \<Rightarrow> s_ring \<Rightarrow> s_ring" where
  "pad_loop BUF_MAX i sz rb =
     (if i < sz then pad_loop BUF_MAX (i + 1) sz (ring_buffer_write_char BUF_MAX rb CHR ''0'')
      else rb)"
  by pat_completeness auto
termination
  by (relation "measure (\<lambda>(BUF_MAX, i, sz, rb). sz - i)") auto

declare pad_loop.simps [simp del]

text \<open>
  The loop of the case \<^verbatim>\<open>'0'\<close> that reads the width (lines 376-380). The index
  \<^verbatim>\<open>fs_prop.consumed + 1\<close> is computed in \<^verbatim>\<open>int\<close>; the assignments to \<^verbatim>\<open>size\<close> and
  \<^verbatim>\<open>consumed\<close> keep 8 bits. With 255 digits or more after the \<^verbatim>\<open>0\<close> the counter wraps
  and the loop does not end: the model is partial, \<open>None\<close> is not returning.
\<close>

definition is_digit :: "char \<Rightarrow> bool" where
  "is_digit c = ((of_char CHR ''0'' :: nat) \<le> of_char c \<and> (of_char c :: nat) \<le> of_char CHR ''9'')"

partial_function (option) size_loop :: "string \<Rightarrow> fs_properties_t \<Rightarrow> fs_properties_t option" where
  "size_loop fmt fs =
     (if is_digit (c_at fmt (unat (fs_consumed fs) + 1))
      then size_loop fmt
             (fs\<lparr>fs_size := fs_size fs * 10
                     + of_nat (of_char (c_at fmt (unat (fs_consumed fs) + 1)) - of_char CHR ''0''),
                 fs_consumed := fs_consumed fs + 1\<rparr>)
      else Some fs)"

text \<open>
  What one pass through the \<^verbatim>\<open>switch\<close> (lines 348-633) ends with: \<^verbatim>\<open>break\<close>,
  \<^verbatim>\<open>goto end\<close> or \<^verbatim>\<open>goto err\<close>. Only a pass that ends with \<^verbatim>\<open>goto end\<close> has read an
  argument or written to the ring buffer.
\<close>

datatype fs_exit =
    Break fs_properties_t
  | Goto_end fs_properties_t "va_arg list" s_ring
  | Goto_err

text \<open>The body shared by the cases \<^verbatim>\<open>d\<close>, \<^verbatim>\<open>i\<close>, \<^verbatim>\<open>l\<close>, \<^verbatim>\<open>h\<close>, \<^verbatim>\<open>u\<close>, \<^verbatim>\<open>x\<close> and \<^verbatim>\<open>o\<close>
  once the value is read: the length, the padding under the two flags, the number.\<close>

definition write_padded :: "nat \<Rightarrow> fs_properties_t \<Rightarrow> s_ring \<Rightarrow> nat \<Rightarrow> nat \<Rightarrow> s_ring" where
  "write_padded BUF_MAX fs rb val base =
     ring_buffer_write_number BUF_MAX
       (if attr_size fs \<and> attr_0len fs
        then pad_loop BUF_MAX (get_number_len val base) (unat (fs_size fs)) rb
        else rb)
       val base"

definition c_strlen :: "string \<Rightarrow> nat" where
  "c_strlen s = length (takeWhile (\<lambda>c. c \<noteq> NUL) s)"

definition fs_switch ::
  "nat \<Rightarrow> string \<Rightarrow> va_arg list \<Rightarrow> fs_properties_t \<Rightarrow> s_ring \<Rightarrow> fs_exit option" where
  "fs_switch BUF_MAX fmt args fs rb =
    (let c = c_at fmt (unat (fs_consumed fs)) in
     if c = CHR ''%'' then
       (if \<not> started fs then Some (Break (fs\<lparr>started := True\<rparr>))
        else if fs_consumed fs = 1
          then Some (Goto_end fs args (ring_buffer_write_char BUF_MAX rb CHR ''%''))
        else Some Goto_err)
     else if c = CHR ''0'' then
       (if \<not> started fs then Some Goto_err
        else
          (case size_loop fmt (fs\<lparr>attr_0len := True\<rparr>) of
             None \<Rightarrow> None
           | Some fs' \<Rightarrow>
               Some (Break (if fs_size fs' \<noteq> 0 then fs'\<lparr>attr_size := True\<rparr> else fs'))))
     else if c = CHR ''d'' \<or> c = CHR ''i'' then
       (if \<not> started fs then Some Goto_err
        else
          (case args of
             VA_int v # args' \<Rightarrow>
               Some (Goto_end (fs\<lparr>numeric_mode := FS_NUM_DECIMAL\<rparr>) args'
                 (write_padded BUF_MAX fs rb (to_uint64 (sint v)) 10))
           | _ \<Rightarrow> None))
     else if c = CHR ''l'' then
       (if \<not> started fs then Some Goto_err
        else if c_at fmt (unat (fs_consumed fs) + 1) = CHR ''l''
        then
          (case args of
             VA_longlong llval # args' \<Rightarrow>
               Some (Goto_end
                 (fs\<lparr>numeric_mode := FS_NUM_LONGLONG, fs_consumed := fs_consumed fs + 1\<rparr>) args'
                 (write_padded BUF_MAX fs rb (to_uint64 llval) 10))
           | _ \<Rightarrow> None)
        else
          (case args of
             VA_long lval # args' \<Rightarrow>
               Some (Goto_end (fs\<lparr>numeric_mode := FS_NUM_LONG\<rparr>) args'
                 (write_padded BUF_MAX fs rb (to_uint64 lval) 10))
           | _ \<Rightarrow> None))
     else if c = CHR ''h'' then
       (if \<not> started fs then Some Goto_err
        else if c_at fmt (unat (fs_consumed fs) + 1) = CHR ''h''
        then
          (case args of
             VA_int v # args' \<Rightarrow>
               Some (Goto_end
                 (fs\<lparr>numeric_mode := FS_NUM_UCHAR, fs_consumed := fs_consumed fs + 1\<rparr>) args'
                 (write_padded BUF_MAX fs rb (unat (ucast v :: 8 word)) 10))
           | _ \<Rightarrow> None)
        else
          (case args of
             VA_int v # args' \<Rightarrow>
               Some (Goto_end (fs\<lparr>numeric_mode := FS_NUM_SHORT\<rparr>) args'
                 (write_padded BUF_MAX fs rb (to_uint64 (sint (ucast v :: 16 word))) 10))
           | _ \<Rightarrow> None))
     else if c = CHR ''u'' then
       (if \<not> started fs then Some Goto_err
        else
          (case args of
             VA_int v # args' \<Rightarrow>
               Some (Goto_end (fs\<lparr>numeric_mode := FS_NUM_UNSIGNED\<rparr>) args'
                 (write_padded BUF_MAX fs rb (unat v) 10))
           | _ \<Rightarrow> None))
     else if c = CHR ''p'' then
       (if \<not> started fs then Some Goto_err
        else
          (case args of
             VA_int v # args' \<Rightarrow>
               Some (Goto_end fs args'
                 (ring_buffer_write_number BUF_MAX
                    (pad_loop BUF_MAX (get_number_len (unat v) 16) (unat (fs_size fs))
                       (ring_buffer_write_string BUF_MAX rb (Some ''0x'') 2))
                    (unat v) 16))
           | _ \<Rightarrow> None))
     else if c = CHR ''x'' then
       (if \<not> started fs then Some Goto_err
        else
          (case args of
             VA_int v # args' \<Rightarrow>
               Some (Goto_end (fs\<lparr>numeric_mode := FS_NUM_UNSIGNED\<rparr>) args'
                 (write_padded BUF_MAX fs rb (unat v) 16))
           | _ \<Rightarrow> None))
     else if c = CHR ''o'' then
       (if \<not> started fs then Some Goto_err
        else
          (case args of
             VA_int v # args' \<Rightarrow>
               Some (Goto_end (fs\<lparr>numeric_mode := FS_NUM_UNSIGNED\<rparr>) args'
                 (write_padded BUF_MAX fs rb (unat v) 8))
           | _ \<Rightarrow> None))
     else if c = CHR ''s'' then
       (if \<not> started fs then Some Goto_err
        else if attr_size fs \<and> attr_0len fs then Some Goto_err
        else
          (case args of
             VA_str (Some str) # args' \<Rightarrow>
               Some (Goto_end fs args'
                 (ring_buffer_write_string BUF_MAX rb (Some str) (c_strlen str)))
           | _ \<Rightarrow> None))
     else if c = CHR ''c'' then
       (if \<not> started fs then Some Goto_err
        else if attr_size fs \<and> attr_0len fs then Some Goto_err
        else
          (case args of
             VA_int v # args' \<Rightarrow>
               Some (Goto_end fs args' (ring_buffer_write_char BUF_MAX rb (char_of (unat v))))
           | _ \<Rightarrow> None))
     else Some Goto_err)"

text \<open>
  The \<^verbatim>\<open>do ... while (fmt[fs_prop.consumed])\<close> loop around the switch, with the two
  labels after it. The result is the value returned (0 or 1), the value stored in
  \<^verbatim>\<open>*consumed\<close> (a \<^verbatim>\<open>uint8_t\<close>), the arguments left and the ring buffer.
\<close>

type_synonym fs_result = "nat \<times> 8 word \<times> va_arg list \<times> s_ring"

partial_function (option) fs_loop ::
  "nat \<Rightarrow> string \<Rightarrow> va_arg list \<Rightarrow> fs_properties_t \<Rightarrow> s_ring \<Rightarrow> fs_result option" where
  "fs_loop BUF_MAX fmt args fs rb =
     (case fs_switch BUF_MAX fmt args fs rb of
        None \<Rightarrow> None
      | Some Goto_err \<Rightarrow> Some (1, 0, args, rb)
      | Some (Goto_end fs' args' rb') \<Rightarrow> Some (0, fs_consumed fs' + 1, args', rb')
      | Some (Break fs') \<Rightarrow>
          (if c_at fmt (unat (fs_consumed fs' + 1)) \<noteq> NUL
           then fs_loop BUF_MAX fmt args (fs'\<lparr>fs_consumed := fs_consumed fs' + 1\<rparr>) rb
           else Some (0, fs_consumed fs' + 1 + 1, args, rb)))"

text \<open>
  \<^verbatim>\<open>print_handle_format_string\<close> (lines 325-642). Its three pointers are never null
  when \<^verbatim>\<open>print\<close> calls it, so the early return of line 340 is not taken.
\<close>

definition print_handle_format_string ::
  "nat \<Rightarrow> string \<Rightarrow> va_arg list \<Rightarrow> s_ring \<Rightarrow> fs_result option" where
  "print_handle_format_string BUF_MAX fmt args rb = fs_loop BUF_MAX fmt args fs_prop_init rb"

section \<open>The print driver and the entry points\<close>

text \<open>
  \<^verbatim>\<open>print\<close> (lines 649-668): the value returned and the ring buffer. The cursor
  \<^verbatim>\<open>i\<close> is a natural (an \<^verbatim>\<open>int\<close> in C, which a template shorter than \<open>2 ^ 31\<close> does not
  overflow). A cursor past the terminator reads outside the template: no result. The
  loop does not end either when a directive reports 0 characters with success, so
  the model is partial.
\<close>

partial_function (option) print_loop ::
  "nat \<Rightarrow> string \<Rightarrow> va_arg list \<Rightarrow> nat \<Rightarrow> s_ring \<Rightarrow> (int \<times> s_ring) option" where
  "print_loop BUF_MAX fmt args i rb =
     (if length fmt < i then None
      else if c_at fmt i = NUL then Some (int i, rb)
      else if c_at fmt i = CHR ''%'' then
        (case print_handle_format_string BUF_MAX (drop i fmt) args rb of
           None \<Rightarrow> None
         | Some (ret, consumed, args', rb') \<Rightarrow>
             (if ret \<noteq> 0 then Some (- 1, rb')
              else print_loop BUF_MAX fmt args' (i + unat consumed) rb'))
      else print_loop BUF_MAX fmt args (i + 1) (ring_buffer_write_char BUF_MAX rb (c_at fmt i)))"

definition print :: "nat \<Rightarrow> string \<Rightarrow> va_arg list \<Rightarrow> s_ring \<Rightarrow> (int \<times> s_ring) option" where
  "print BUF_MAX fmt args rb = print_loop BUF_MAX fmt args 0 rb"

text \<open>
  \<^verbatim>\<open>snprintf\<close> (lines 700-741). \<^verbatim>\<open>size_t\<close> has 32 bits, as on the 32-bit target of the
  library. The mutex is outside the sources: \<open>locked\<close> says that another context holds
  it, and then \<^verbatim>\<open>mutex_trylock\<close> fails. \<open>dst_ok\<close> says that \<^verbatim>\<open>dst\<close> is not null.
  The result is the value returned, the bytes stored into \<^verbatim>\<open>dst\<close> from its start on
  (the bytes copied, then the terminator) and the ring buffer.

  \<open>snprintf_to_copy\<close> is lines 722-727. \<open>memcpy_ring\<close> is the source of the
  \<^verbatim>\<open>memcpy\<close>: \<open>n\<close> bytes from \<^verbatim>\<open>&(ring_buffer.buf[idx])\<close>, where the index
  \<^verbatim>\<open>ring_buffer.end - sizew\<close> is computed in \<^verbatim>\<open>size_t\<close>; bytes outside the storage are an
  access out of bounds, which has no result.
\<close>

type_synonym size_t = "32 word"

definition snprintf_to_copy :: "size_t \<Rightarrow> size_t \<Rightarrow> size_t" where
  "snprintf_to_copy sizew len = (if sizew \<ge> len then len - 1 else sizew)"

definition memcpy_ring :: "char list \<Rightarrow> size_t \<Rightarrow> nat \<Rightarrow> char list option" where
  "memcpy_ring buf idx n =
     (if unat idx + n \<le> length buf then Some (take n (drop (unat idx) buf)) else None)"

definition snprintf ::
  "nat \<Rightarrow> bool \<Rightarrow> size_t \<Rightarrow> string \<Rightarrow> va_arg list \<Rightarrow> bool \<Rightarrow> s_ring
     \<Rightarrow> (int \<times> char list \<times> s_ring) option" where
  "snprintf BUF_MAX dst_ok len fmt args locked rb =
     (if \<not> dst_ok then Some (- 1, [], rb)
      else if locked then Some (- 1, [], rb)
      else
        (case print BUF_MAX fmt args rb of
           None \<Rightarrow> None
         | Some (res, rb1) \<Rightarrow>
             (case memcpy_ring (rb_buf rb1) (of_nat (rb_end rb1) - word_of_int res)
                     (unat (snprintf_to_copy (word_of_int res) len)) of
                None \<Rightarrow> None
              | Some bytes \<Rightarrow>
                  Some (sint (snprintf_to_copy (word_of_int res) len), bytes @ [NUL],
                        fst (ring_buffer_rewind BUF_MAX rb1 (unat (word_of_int res :: size_t)))))))"

section \<open>Notions used to state the properties\<close>

text \<open>
  A sequence of bytes written to the ring buffer: one call of
  \<^verbatim>\<open>ring_buffer_write_char\<close> for each byte, in order. "The code emits \<open>cs\<close>" is
  "the ring buffer after the code is \<open>write_chars\<close> of \<open>cs\<close> on the ring buffer before".
\<close>

definition write_chars :: "nat \<Rightarrow> s_ring \<Rightarrow> char list \<Rightarrow> s_ring" where
  "write_chars BUF_MAX rb cs = fold (\<lambda>c r. ring_buffer_write_char BUF_MAX r c) cs rb"

text \<open>The characters of the digits that \<open>number_digits\<close> computes, most significant first.\<close>

definition number_chars :: "nat \<Rightarrow> nat \<Rightarrow> char list" where
  "number_chars val base = map (\<lambda>d. ''0123456789abcdef'' ! d) (rev (number_digits val base))"

text \<open>The number of bytes the ring buffer holds, as the specification counts them.\<close>

definition live_bytes :: "nat \<Rightarrow> s_ring \<Rightarrow> nat" where
  "live_bytes BUF_MAX rb =
     (if rb_full rb then BUF_MAX else (rb_end rb + BUF_MAX - rb_start rb) mod BUF_MAX)"

text \<open>
  The width that the loop of the case \<^verbatim>\<open>0\<close> reads from the digits \<open>ds\<close> that follow
  the flag, starting from 0: the assignment of line 378 for each digit, in 8 bits.
\<close>

definition parsed_width :: "char list \<Rightarrow> 8 word" where
  "parsed_width ds = foldl (\<lambda>s d. s * 10 + of_nat (of_char d - of_char CHR ''0'')) 0 ds"

text \<open>
  The width a template asks for: the decimal number that the digits \<open>ds\<close> after the
  flag \<^verbatim>\<open>0\<close> spell, as a natural number.
\<close>

definition requested_width :: "char list \<Rightarrow> nat" where
  "requested_width ds = foldl (\<lambda>n d. n * 10 + (of_char d - of_char CHR ''0'')) 0 ds"

text \<open>
  \<open>ds\<close> is the numeral of \<open>val\<close> in the base, least significant digit first: digits
  below the base, with the value \<open>val\<close>, and no leading zero but for the numeral of 0.
\<close>

definition is_base_repr :: "nat \<Rightarrow> nat \<Rightarrow> nat list \<Rightarrow> bool" where
  "is_base_repr base val ds =
     (ds \<noteq> [] \<and> (\<forall>d \<in> set ds. d < base) \<and> foldr (\<lambda>d a. d + base * a) ds 0 = val
      \<and> (last ds = 0 \<longrightarrow> ds = [0]))"

text \<open>An empty ring buffer of the given capacity, as \<^verbatim>\<open>init_ring_buffer\<close> leaves it.\<close>

definition empty_ring :: "nat \<Rightarrow> s_ring" where
  "empty_ring BUF_MAX =
     \<lparr>rb_start = 0, rb_end = 0, rb_full = False, rb_buf = replicate BUF_MAX NUL\<rparr>"

text \<open>
  The invariant of the ring buffer as the specification words it (\<open>spec_invariant\<close>),
  and as \<^verbatim>\<open>ring_buffer_write_char\<close> keeps it (\<open>ring_invariant\<close>): the code sets
  \<^verbatim>\<open>full\<close> when the slot after \<^verbatim>\<open>end\<close> is \<^verbatim>\<open>start\<close>, and leaves \<^verbatim>\<open>end\<close> where it is.
\<close>

definition spec_invariant :: "nat \<Rightarrow> s_ring \<Rightarrow> bool" where
  "spec_invariant BUF_MAX rb =
     (rb_start rb < BUF_MAX \<and> rb_end rb < BUF_MAX \<and> (rb_full rb \<longrightarrow> rb_start rb = rb_end rb))"

definition ring_invariant :: "nat \<Rightarrow> s_ring \<Rightarrow> bool" where
  "ring_invariant BUF_MAX rb =
     (rb_start rb < BUF_MAX \<and> rb_end rb < BUF_MAX
      \<and> (rb_full rb \<longrightarrow> (rb_end rb + 1) mod BUF_MAX = rb_start rb))"

section \<open>Auxiliary facts\<close>

lemma write_chars_Nil [simp]: "write_chars C rb [] = rb"
  by (simp add: write_chars_def)

lemma write_chars_Cons [simp]:
  "write_chars C rb (c # cs) = write_chars C (ring_buffer_write_char C rb c) cs"
  by (simp add: write_chars_def)

lemma write_chars_append:
  "write_chars C rb (xs @ ys) = write_chars C (write_chars C rb xs) ys"
  by (simp add: write_chars_def)

lemma hex_digit_chars:
  "char_of (48::nat) = CHR ''0''" "char_of (49::nat) = CHR ''1''" "char_of (50::nat) = CHR ''2''"
  "char_of (51::nat) = CHR ''3''" "char_of (52::nat) = CHR ''4''" "char_of (53::nat) = CHR ''5''"
  "char_of (54::nat) = CHR ''6''" "char_of (55::nat) = CHR ''7''" "char_of (56::nat) = CHR ''8''"
  "char_of (57::nat) = CHR ''9''" "char_of (97::nat) = CHR ''a''" "char_of (98::nat) = CHR ''b''"
  "char_of (99::nat) = CHR ''c''" "char_of (100::nat) = CHR ''d''" "char_of (101::nat) = CHR ''e''"
  "char_of (102::nat) = CHR ''f''"
  by code_simp+

lemma write_digit_char:
  assumes "d < 16"
  shows "ring_buffer_write_digit C rb d = ring_buffer_write_char C rb (''0123456789abcdef'' ! d)"
proof -
  from assms have "d = 0 \<or> d = 1 \<or> d = 2 \<or> d = 3 \<or> d = 4 \<or> d = 5 \<or> d = 6 \<or> d = 7
    \<or> d = 8 \<or> d = 9 \<or> d = 10 \<or> d = 11 \<or> d = 12 \<or> d = 13 \<or> d = 14 \<or> d = 15"
    by presburger
  then show ?thesis
    by (elim disjE) (simp_all add: ring_buffer_write_digit_def hex_digit_chars)
qed

lemma write_digits_chars:
  "\<forall>d \<in> set ds. d < 16 \<Longrightarrow>
   write_digits C rb ds = write_chars C rb (map (\<lambda>d. ''0123456789abcdef'' ! d) ds)"
  by (induction ds arbitrary: rb) (simp_all add: write_digit_char)

lemma number_digits_less:
  "1 < base \<Longrightarrow> d \<in> set (number_digits val base) \<Longrightarrow> d < base"
proof (induction val base rule: number_digits.induct)
  case (1 val base)
  then show ?case
    by (subst (asm) (2) number_digits.simps) (auto split: if_splits)
qed

lemma write_number_chars:
  assumes "1 < base" "base \<le> 16"
  shows "ring_buffer_write_number C rb val base = write_chars C rb (number_chars val base)"
proof -
  have "\<forall>d \<in> set (rev (number_digits val base)). d < 16"
    using number_digits_less [OF assms(1)] assms(2) by fastforce
  then show ?thesis
    by (simp add: ring_buffer_write_number_def number_chars_def write_digits_chars)
qed

lemma pad_loop_chars:
  "pad_loop C i n rb = write_chars C rb (replicate (n - i) CHR ''0'')"
proof (induction C i n rb rule: pad_loop.induct)
  case (1 C i n rb)
  show ?case
  proof (cases "i < n")
    case True
    then have "n - i = Suc (n - (i + 1))" by simp
    with True "1" show ?thesis
      by (subst pad_loop.simps) simp
  next
    case False
    then show ?thesis by (subst pad_loop.simps) simp
  qed
qed

lemma get_number_len_loop_digits:
  "get_number_len_loop val base len + 1 = len + length (number_digits val base)"
proof (induction val base len rule: get_number_len_loop.induct)
  case (1 val base len)
  show ?case
  proof (cases "1 < base \<and> val div base \<noteq> 0")
    case True
    with "1" show ?thesis
      by (subst get_number_len_loop.simps, subst number_digits.simps) simp
  next
    case False
    then show ?thesis
      by (subst get_number_len_loop.simps, subst number_digits.simps) auto
  qed
qed

lemma length_number_chars: "length (number_chars val base) = get_number_len val base"
  using get_number_len_loop_digits [of val base 1]
  by (simp add: number_chars_def get_number_len_def)

lemma write_string_0x:
  "ring_buffer_write_string C rb (Some ''0x'') 2 = write_chars C rb ''0x''"
  by (simp add: ring_buffer_write_string_def write_string_loop.simps c_at_def)


lemma replicate_numeral: "replicate (numeral k) x = x # replicate (pred_numeral k) x"
  by (simp add: numeral_eq_Suc)

lemma number_digits_value:
  "1 < base \<Longrightarrow> foldr (\<lambda>d a. d + base * a) (number_digits val base) 0 = val"
proof (induction val base rule: number_digits.induct)
  case (1 val base)
  show ?case
  proof (cases "val div base \<noteq> 0")
    case True
    with "1" show ?thesis
      by (subst number_digits.simps) simp
  next
    case False
    with "1.prems" show ?thesis
      by (subst number_digits.simps) (simp add: div_eq_0_iff)
  qed
qed

lemmas eval_simps =
  print_def print_loop.simps print_handle_format_string_def fs_loop.simps fs_switch_def
  size_loop.simps is_digit_def fs_prop_init_def c_at_def write_padded_def
  ring_buffer_write_number_def number_digits.simps ring_buffer_write_digit_def
  ring_buffer_write_char_def ring_buffer_write_string_def write_string_loop.simps
  pad_loop.simps get_number_len_def get_number_len_loop.simps to_uint64_def
  empty_ring_def replicate_numeral hex_digit_chars


section \<open>The states in which a conversion character is read\<close>

lemma fs_loop_numeric:
  assumes "started fs"
    and "(c_at fmt (unat (fs_consumed fs)), base, val) \<in>
           {(CHR ''d'', 10, to_uint64 (sint v)), (CHR ''i'', 10, to_uint64 (sint v)),
            (CHR ''u'', 10, unat v), (CHR ''x'', 16, unat v), (CHR ''o'', 8, unat v)}"
  shows "fs_loop C fmt (VA_int v # args) fs rb =
           Some (0, fs_consumed fs + 1, args, write_padded C fs rb val base)"
  using assms by (subst fs_loop.simps) (auto simp: fs_switch_def)

lemma write_padded_chars:
  assumes "1 < base" "base \<le> 16"
  shows "write_padded C fs rb val base =
     write_chars C rb
       ((if attr_0len fs \<and> attr_size fs
         then replicate (unat (fs_size fs) - get_number_len val base) CHR ''0'' else [])
        @ number_chars val base)"
  using assms by (simp add: write_padded_def pad_loop_chars write_number_chars write_chars_append)

lemma size_loop_digits:
  assumes "\<forall>d \<in> set ds. is_digit d" and "\<not> is_digit c"
    and "unat (fs_consumed fs) + 1 = length pre" and "length pre + length ds \<le> 256"
  shows "size_loop (pre @ ds @ c # rest) fs =
           Some (fs\<lparr>fs_size := foldl (\<lambda>s d. s * 10 + of_nat (of_char d - of_char CHR ''0''))
                                   (fs_size fs) ds,
                    fs_consumed := fs_consumed fs + of_nat (length ds)\<rparr>)"
  using assms
proof (induction ds arbitrary: pre fs)
  case Nil
  then show ?case
    by (subst size_loop.simps) (simp add: c_at_def)
next
  case (Cons d ds)
  let ?fs = "fs\<lparr>fs_size := fs_size fs * 10 + of_nat (of_char d - of_char CHR ''0''),
                 fs_consumed := fs_consumed fs + 1\<rparr>"
  from Cons.prems have "unat (fs_consumed fs) + unat (1 :: 8 word) < 2 ^ LENGTH(8)"
    by simp
  then have u: "unat (fs_consumed fs + 1) = unat (fs_consumed fs) + 1"
    by (simp only: unat_add_lem [THEN iffD1]) simp
  have "size_loop (pre @ (d # ds) @ c # rest) fs = size_loop (pre @ (d # ds) @ c # rest) ?fs"
    using Cons.prems by (subst size_loop.simps) (simp add: c_at_def)
  also have "\<dots> = size_loop ((pre @ [d]) @ ds @ c # rest) ?fs"
    by simp
  also have "\<dots> = Some (?fs\<lparr>fs_size := foldl (\<lambda>s d. s * 10 + of_nat (of_char d - of_char CHR ''0''))
                                   (fs_size ?fs) ds,
                    fs_consumed := fs_consumed ?fs + of_nat (length ds)\<rparr>)"
    using Cons.prems u by (intro Cons.IH) simp_all
  finally show ?case by (simp add: add.assoc)
qed


lemma after_percent:
  assumes "c \<noteq> NUL"
  shows "print_handle_format_string C (CHR ''%'' # c # rest) args rb =
         fs_loop C (CHR ''%'' # c # rest) args (fs_prop_init\<lparr>started := True, fs_consumed := 1\<rparr>) rb"
proof -
  have "fs_switch C (CHR ''%'' # c # rest) args fs_prop_init rb =
          Some (Break (fs_prop_init\<lparr>started := True\<rparr>))"
    by (simp add: fs_switch_def fs_prop_init_def c_at_def)
  then show ?thesis
    using assms unfolding print_handle_format_string_def
    by (subst fs_loop.simps) (simp add: fs_prop_init_def c_at_def)
qed

lemma after_zero_flag:
  assumes "\<forall>d \<in> set ds. is_digit d" and "length ds \<le> 253"
    and "\<not> is_digit c" and "c \<noteq> NUL"
  shows "print_handle_format_string C (CHR ''%'' # CHR ''0'' # ds @ c # rest) args rb =
         fs_loop C (CHR ''%'' # CHR ''0'' # ds @ c # rest) args
           (fs_prop_init\<lparr>started := True, attr_0len := True,
              attr_size := (parsed_width ds \<noteq> 0), fs_size := parsed_width ds,
              fs_consumed := of_nat (length ds) + 2\<rparr>) rb"
    and "c_at (CHR ''%'' # CHR ''0'' # ds @ c # rest) (unat (of_nat (length ds) + 2 :: 8 word)) = c"
proof -
  let ?fmt = "CHR ''%'' # CHR ''0'' # ds @ c # rest"
  let ?fs1 = "fs_prop_init\<lparr>started := True, fs_consumed := 1\<rparr>"
  let ?fs2 = "?fs1\<lparr>attr_0len := True, fs_size := parsed_width ds,
                    fs_consumed := 1 + of_nat (length ds)\<rparr>"
  let ?fs3 = "if parsed_width ds \<noteq> 0 then ?fs2\<lparr>attr_size := True\<rparr> else ?fs2"
  let ?fs4 = "fs_prop_init\<lparr>started := True, attr_0len := True,
              attr_size := (parsed_width ds \<noteq> 0), fs_size := parsed_width ds,
              fs_consumed := of_nat (length ds) + 2\<rparr>"
  have n: "unat (of_nat (length ds) :: 8 word) = length ds"
    using assms(2) by (simp add: unat_of_nat)
  have "unat (of_nat (length ds) :: 8 word) + unat (2 :: 8 word) < 2 ^ LENGTH(8)"
    using assms(2) n by simp
  then have n2: "unat (of_nat (length ds) + 2 :: 8 word) = length ds + 2"
    using n by (simp only: unat_add_lem [THEN iffD1]) simp
  show at: "c_at ?fmt (unat (of_nat (length ds) + 2 :: 8 word)) = c"
    by (simp add: n2 c_at_def nth_append)
  have sz: "size_loop ?fmt (?fs1\<lparr>attr_0len := True\<rparr>) = Some ?fs2"
    using size_loop_digits [of ds c "?fs1\<lparr>attr_0len := True\<rparr>" "''%0''" rest] assms(1,2,3)
    by (simp add: fs_prop_init_def parsed_width_def)
  define fs3 where "fs3 = ?fs3"
  have sw1: "fs_switch C ?fmt args ?fs1 rb = Some (Break fs3)"
    using sz unfolding fs3_def by (simp add: fs_switch_def c_at_def fs_prop_init_def)
  have c3: "fs_consumed fs3 + 1 = of_nat (length ds) + 2"
    unfolding fs3_def by (simp add: add.commute)
  have eq: "fs3\<lparr>fs_consumed := of_nat (length ds) + 2\<rparr> = ?fs4"
    unfolding fs3_def by (simp add: fs_prop_init_def)
  have "fs_loop C ?fmt args ?fs1 rb = fs_loop C ?fmt args ?fs4 rb"
    by (subst fs_loop.simps) (simp add: sw1 c3 at assms(4) eq)
  then show "print_handle_format_string C ?fmt args rb = fs_loop C ?fmt args ?fs4 rb"
    by (simp add: after_percent)
qed

lemma fs_loop_pointer:
  assumes "started fs" and "c_at fmt (unat (fs_consumed fs)) = CHR ''p''"
  shows "fs_loop C fmt (VA_int v # args) fs rb =
           Some (0, fs_consumed fs + 1, args,
                 write_chars C rb
                   (''0x'' @ replicate (unat (fs_size fs) - get_number_len (unat v) 16) CHR ''0''
                    @ number_chars (unat v) 16))"
proof -
  have "fs_switch C fmt (VA_int v # args) fs rb =
          Some (Goto_end fs args
            (ring_buffer_write_number C
               (pad_loop C (get_number_len (unat v) 16) (unat (fs_size fs))
                  (ring_buffer_write_string C rb (Some ''0x'') 2))
               (unat v) 16))"
    using assms by (simp add: fs_switch_def)
  then show ?thesis
    by (subst fs_loop.simps)
       (simp add: write_string_0x pad_loop_chars write_number_chars write_chars_append)
qed






section \<open>Numerals and widths\<close>

lemma number_digits_not_Nil: "number_digits val base \<noteq> []"
  by (subst number_digits.simps) simp

lemma number_digits_leading:
  "last (number_digits val base) = 0 \<longrightarrow> number_digits val base = [0]"
proof (induction val base rule: number_digits.induct)
  case (1 val base)
  show ?case
  proof (cases "1 < base \<and> val div base \<noteq> 0")
    case True
    then have step: "number_digits val base = (val mod base) # number_digits (val div base) base"
      by (subst number_digits.simps) simp
    have "number_digits (val div base) base \<noteq> [0]"
    proof (cases "val div base div base \<noteq> 0")
      case deeper: True
      with True have "number_digits (val div base) base =
          (val div base mod base) # number_digits (val div base div base) base"
        by (subst number_digits.simps) simp
      then show ?thesis by (simp add: number_digits_not_Nil)
    next
      case False
      with True have "number_digits (val div base) base = [val div base mod base]"
        by (subst number_digits.simps) simp
      moreover from False True have "val div base mod base = val div base"
        by (simp add: div_eq_0_iff)
      ultimately show ?thesis using True by simp
    qed
    then show ?thesis
      using "1.IH" True by (simp add: step number_digits_not_Nil)
  next
    case False
    then have "number_digits val base = [val mod base]"
      by (subst number_digits.simps) auto
    then show ?thesis by simp
  qed
qed

lemma number_digits_repr:
  assumes "1 < base"
  shows "is_base_repr base val (number_digits val base)"
  using number_digits_not_Nil [of val base] number_digits_leading [of val base]
    number_digits_less [OF assms, of _ val] number_digits_value [OF assms, of val]
  by (auto simp: is_base_repr_def)

lemma unat_width_step:
  "unat (s * 10 + of_nat k :: 8 word) = (unat s * 10 + k) mod 256"
  by (simp add: unat_word_ariths unat_of_nat mod_simps)

lemma unat_foldl_width:
  "unat (foldl (\<lambda>s d. s * 10 + of_nat (of_char d - of_char CHR ''0'')) (s :: 8 word) ds) =
     foldl (\<lambda>n d. n * 10 + (of_char d - of_char CHR ''0'')) (unat s) ds mod 256"
proof (induction ds arbitrary: s)
  case Nil
  have "unat s < 256" using unsigned_less [of s] by simp
  then show ?case by simp
next
  case (Cons d ds)
  define k :: nat where "k = of_char d - of_char CHR ''0''"
  have congr: "foldl (\<lambda>n d. n * 10 + (of_char d - of_char CHR ''0'')) a ds mod 256 =
               foldl (\<lambda>n d. n * 10 + (of_char d - of_char CHR ''0'')) b ds mod 256"
    if "a mod 256 = b mod (256::nat)" for a b
    using that
  proof (induction ds arbitrary: a b)
    case Nil
    then show ?case by simp
  next
    case (Cons e es)
    have "(a * 10 + (of_char e - of_char CHR ''0'')) mod 256 =
          (b * 10 + (of_char e - of_char CHR ''0'')) mod (256::nat)"
      using Cons.prems by (metis mod_add_cong mod_mult_cong)
    from Cons.IH [OF this] show ?case by simp
  qed
  have "unat (foldl (\<lambda>s d. s * 10 + of_nat (of_char d - of_char CHR ''0'')) s (d # ds)) =
        foldl (\<lambda>n d. n * 10 + (of_char d - of_char CHR ''0'')) (unat (s * 10 + of_nat k)) ds mod 256"
    using Cons.IH [of "s * 10 + of_nat k"] by (simp add: k_def)
  also have "\<dots> = foldl (\<lambda>n d. n * 10 + (of_char d - of_char CHR ''0'')) (unat s * 10 + k) ds mod 256"
    by (rule congr) (simp add: unat_width_step)
  finally show ?case by (simp add: k_def)
qed

lemma unat_parsed_width: "unat (parsed_width ds) = requested_width ds mod 256"
  using unat_foldl_width [of 0 ds] by (simp add: parsed_width_def requested_width_def)

lemma to_uint64_nonneg:
  assumes "0 \<le> sint (v :: 32 word)"
  shows "to_uint64 (sint v) = nat (sint v)"
proof -
  have "sint v < 2 ^ 31" using sint_lt [of v] by simp
  also have "\<dots> < (2 :: int) ^ 64" by simp
  finally show ?thesis using assms by (simp add: to_uint64_def)
qed


section \<open>Numeric conversions\<close>

text \<open>
  Claim C6, amended. Let \<open>c\<close> be one of the conversion characters \<^verbatim>\<open>d\<close>, \<^verbatim>\<open>i\<close>, \<^verbatim>\<open>u\<close>,
  \<^verbatim>\<open>x\<close>, \<^verbatim>\<open>o\<close>, with its base, and \<open>val\<close> the value of the 32-bit argument \<open>v\<close>: for
  \<^verbatim>\<open>d\<close> and \<^verbatim>\<open>i\<close> the signed value, taken non-negative; for the others the unsigned
  value.
  \<^item> Read in any started directive, the conversion succeeds, reports the characters
    consumed so far plus one, and emits the padding, then the digits of the value.
    The padding is \<open>fs_size - len\<close> characters \<^verbatim>\<open>0\<close> exactly when both flags
    \<open>attr_0len\<close> and \<open>attr_size\<close> of the directive are set, and nothing otherwise.
  \<^item> The directive \<^verbatim>\<open>%\<close>\<open>c\<close> sets no flag: it emits the digits only.
  \<^item> The directive \<^verbatim>\<open>%0\<close>\<open>ds c\<close>, with up to 253 digits \<open>ds\<close>, emits \<open>w - len\<close>
    characters \<^verbatim>\<open>0\<close>, then the digits, where \<open>w\<close> is the requested width modulo 256:
    the directive keeps the width in 8 bits. For \<open>w = 0\<close> that is no padding.
  \<^item> The digits emitted are the numeral of \<open>val\<close> in the base, most significant digit
    first, in the characters \<^verbatim>\<open>0\<close> to \<^verbatim>\<open>9\<close> and \<^verbatim>\<open>a\<close> to \<^verbatim>\<open>f\<close>; \<open>len\<close> is their number,
    which is what \<^verbatim>\<open>get_number_len\<close> returns. The differences are truncating: a value
    longer than the width gets no padding and keeps all its digits.
  \<^item> On an empty ring buffer of 16 bytes the template \<^verbatim>\<open>%05d\<close> gives \<^verbatim>\<open>00042\<close> for 42
    and \<^verbatim>\<open>123456\<close> for 123456.
\<close>

theorem numeric_conversion_zero_padding:
  assumes "(c, base, val) \<in>
           {(CHR ''d'', 10, nat (sint v)), (CHR ''i'', 10, nat (sint v)),
            (CHR ''u'', 10, unat v), (CHR ''x'', 16, unat v), (CHR ''o'', 8, unat v)}"
    and "c = CHR ''d'' \<or> c = CHR ''i'' \<longrightarrow> 0 \<le> sint v"
  shows "(started fs \<and> c_at fmt (unat (fs_consumed fs)) = c \<longrightarrow>
          fs_loop C fmt (VA_int v # args) fs rb =
            Some (0, fs_consumed fs + 1, args,
                  write_chars C rb
                    ((if attr_0len fs \<and> attr_size fs
                      then replicate (unat (fs_size fs) - length (number_chars val base)) CHR ''0''
                      else [])
                     @ number_chars val base)))
       \<and> print_handle_format_string C (CHR ''%'' # c # rest) (VA_int v # args) rb =
            Some (0, 2, args, write_chars C rb (number_chars val base))
       \<and> ((\<forall>d \<in> set ds. is_digit d) \<and> length ds \<le> 253 \<longrightarrow>
          print_handle_format_string C (CHR ''%'' # CHR ''0'' # ds @ c # rest) (VA_int v # args) rb =
            Some (0, of_nat (length ds) + 3, args,
                  write_chars C rb
                    (replicate (requested_width ds mod 256 - length (number_chars val base))
                       CHR ''0''
                     @ number_chars val base)))
       \<and> number_chars val base =
           map (\<lambda>d. ''0123456789abcdef'' ! d) (rev (number_digits val base))
       \<and> is_base_repr base val (number_digits val base)
       \<and> get_number_len val base = length (number_digits val base)
       \<and> print 16 ''%05d'' [VA_int 42] (empty_ring 16) =
           Some (4, \<lparr>rb_start = 0, rb_end = 5, rb_full = False,
                      rb_buf = ''00042'' @ replicate 11 NUL\<rparr>)
       \<and> print 16 ''%05d'' [VA_int 123456] (empty_ring 16) =
           Some (4, \<lparr>rb_start = 0, rb_end = 6, rb_full = False,
                      rb_buf = ''123456'' @ replicate 10 NUL\<rparr>)"
proof -
  from assms(1) have base: "1 < base" "base \<le> 16" and c: "\<not> is_digit c" "c \<noteq> NUL"
    by (auto simp: is_digit_def)
  have code: "(c, base, val) \<in>
           {(CHR ''d'', 10, to_uint64 (sint v)), (CHR ''i'', 10, to_uint64 (sint v)),
            (CHR ''u'', 10, unat v), (CHR ''x'', 16, unat v), (CHR ''o'', 8, unat v)}"
    using assms by (elim insertE emptyE; simp add: to_uint64_nonneg)
  have state: "fs_loop C fmt (VA_int v # args) fs rb =
          Some (0, fs_consumed fs + 1, args,
                  write_chars C rb
                    ((if attr_0len fs \<and> attr_size fs
                      then replicate (unat (fs_size fs) - length (number_chars val base)) CHR ''0''
                      else [])
                     @ number_chars val base))"
    if "started fs" "c_at fmt (unat (fs_consumed fs)) = c" for fs fmt
    using fs_loop_numeric [of fs fmt base val v C args rb] that code base
    by (simp only: write_padded_chars length_number_chars)
  have plain: "print_handle_format_string C (CHR ''%'' # c # rest) (VA_int v # args) rb =
            Some (0, 2, args, write_chars C rb (number_chars val base))"
    by (simp add: after_percent [OF c(2)] state fs_prop_init_def c_at_def)
  have flag: "print_handle_format_string C (CHR ''%'' # CHR ''0'' # ds @ c # rest) (VA_int v # args) rb =
            Some (0, of_nat (length ds) + 3, args,
                  write_chars C rb
                    (replicate (requested_width ds mod 256 - length (number_chars val base))
                       CHR ''0''
                     @ number_chars val base))"
    if "\<forall>d \<in> set ds. is_digit d" "length ds \<le> 253"
    using after_zero_flag(2) [OF that c, of rest] state
    by (simp add: after_zero_flag(1) [OF that c] fs_prop_init_def flip: unat_parsed_width)
  have ex1: "print 16 ''%05d'' [VA_int 42] (empty_ring 16) =
             Some (4, \<lparr>rb_start = 0, rb_end = 5, rb_full = False,
                        rb_buf = ''00042'' @ replicate 11 NUL\<rparr>)"
    by (simp add: eval_simps)
  have ex2: "print 16 ''%05d'' [VA_int 123456] (empty_ring 16) =
             Some (4, \<lparr>rb_start = 0, rb_end = 6, rb_full = False,
                        rb_buf = ''123456'' @ replicate 10 NUL\<rparr>)"
    by (simp add: eval_simps)
  have len: "get_number_len val base = length (number_digits val base)"
    using length_number_chars [of val base] by (simp add: number_chars_def)
  from state plain flag ex1 ex2 len number_digits_repr [OF base(1), of val] show ?thesis
    by (intro conjI impI) (auto simp: number_chars_def)
qed

text \<open>The theorem at the directive \<^verbatim>\<open>%05d\<close> and at its conversion character, with the value 42.\<close>

theorem numeric_conversion_zero_padding_witness:
  "fs_loop 16 ''%05d'' [VA_int 42]
     \<lparr>attr_0len = True, attr_size = True, fs_size = 5, numeric_mode = FS_NUM_DECIMAL,
      started = True, fs_consumed = 3\<rparr> (empty_ring 16) =
   Some (0, 4, [], \<lparr>rb_start = 0, rb_end = 5, rb_full = False,
                     rb_buf = ''00042'' @ replicate 11 NUL\<rparr>)
   \<and> print_handle_format_string 16 ''%05d'' [VA_int 42] (empty_ring 16) =
   Some (0, 4, [], \<lparr>rb_start = 0, rb_end = 5, rb_full = False,
                     rb_buf = ''00042'' @ replicate 11 NUL\<rparr>)
   \<and> requested_width ''5'' = 5
   \<and> number_digits 42 10 = [2, 4]
   \<and> is_base_repr 10 42 [2, 4]
   \<and> get_number_len 42 10 = 2"
  using numeric_conversion_zero_padding
    [where c = "CHR ''d''" and base = 10 and val = 42 and v = 42
       and fs = "\<lparr>attr_0len = True, attr_size = True, fs_size = 5, numeric_mode = FS_NUM_DECIMAL,
         started = True, fs_consumed = 3\<rparr>" and fmt = "''%05d''" and C = 16 and args = "[]"
       and rb = "empty_ring 16" and rest = "[]" and ds = "''5''"]
  by (simp add: c_at_def number_chars_def number_digits.simps empty_ring_def replicate_numeral
      ring_buffer_write_char_def is_digit_def requested_width_def)

text \<open>
  Claim C6 as stated fails for a width above 255: the template \<^verbatim>\<open>%0256d\<close> has the flag
  and asks for the width 256, and with the argument 7 the code emits the character
  \<^verbatim>\<open>7\<close> alone, with no padding (the width kept in 8 bits is 0).
\<close>

theorem width_above_255_counterexample:
  "requested_width ''256'' = 256
   \<and> print 8 ''%0256d'' [VA_int 7] (empty_ring 8) =
       Some (6, \<lparr>rb_start = 0, rb_end = 1, rb_full = False, rb_buf = ''7'' @ replicate 7 NUL\<rparr>)"
  by (simp add: eval_simps requested_width_def)

section \<open>The pointer conversion\<close>

text \<open>
  Claim C7. Read in any started directive, the conversion character \<^verbatim>\<open>p\<close> with a
  32-bit argument \<open>v\<close> next succeeds and emits the two characters \<^verbatim>\<open>0x\<close>, then
  \<open>fs_size - len\<close> characters \<^verbatim>\<open>0\<close> whatever the flags \<open>attr_0len\<close> and \<open>attr_size\<close> are,
  then the digits of the value. So the directive \<^verbatim>\<open>%p\<close> emits \<^verbatim>\<open>0x\<close> and the digits,
  and the directive \<^verbatim>\<open>%0\<close>\<open>ds\<close>\<^verbatim>\<open>p\<close> pads the digits to the width parsed, which is the
  requested width modulo 256. The digits emitted are the numeral of the unsigned
  value of \<open>v\<close> in base 16, most significant digit first, with the letters \<^verbatim>\<open>a\<close> to
  \<^verbatim>\<open>f\<close> in lower case; \<open>len\<close> is their number, which is what \<^verbatim>\<open>get_number_len\<close>
  returns. On an empty ring buffer of 16 bytes the template \<^verbatim>\<open>%p\<close> gives \<^verbatim>\<open>0xab\<close> for
  the value \<^verbatim>\<open>0xAB\<close>.
\<close>

theorem pointer_conversion:
  "(started fs \<and> c_at fmt (unat (fs_consumed fs)) = CHR ''p'' \<longrightarrow>
      fs_loop C fmt (VA_int v # args) fs rb =
        Some (0, fs_consumed fs + 1, args,
              write_chars C rb
                (''0x'' @ replicate (unat (fs_size fs) - length (number_chars (unat v) 16)) CHR ''0''
                 @ number_chars (unat v) 16)))
   \<and> print_handle_format_string C (CHR ''%'' # CHR ''p'' # rest) (VA_int v # args) rb =
        Some (0, 2, args, write_chars C rb (''0x'' @ number_chars (unat v) 16))
   \<and> ((\<forall>d \<in> set ds. is_digit d) \<and> length ds \<le> 253 \<longrightarrow>
        print_handle_format_string C (CHR ''%'' # CHR ''0'' # ds @ CHR ''p'' # rest)
            (VA_int v # args) rb =
          Some (0, of_nat (length ds) + 3, args,
                write_chars C rb
                  (''0x'' @ replicate (unat (parsed_width ds) - length (number_chars (unat v) 16))
                             CHR ''0''
                   @ number_chars (unat v) 16))
        \<and> unat (parsed_width ds) = requested_width ds mod 256)
   \<and> number_chars (unat v) 16 =
       map (\<lambda>d. ''0123456789abcdef'' ! d) (rev (number_digits (unat v) 16))
   \<and> is_base_repr 16 (unat v) (number_digits (unat v) 16)
   \<and> get_number_len (unat v) 16 = length (number_digits (unat v) 16)
   \<and> print 16 ''%p'' [VA_int 0xAB] (empty_ring 16) =
        Some (2, \<lparr>rb_start = 0, rb_end = 4, rb_full = False,
                   rb_buf = ''0xab'' @ replicate 12 NUL\<rparr>)"
proof -
  have c: "\<not> is_digit CHR ''p''" "CHR ''p'' \<noteq> NUL"
    by (simp_all add: is_digit_def)
  have state: "fs_loop C fmt (VA_int v # args) fs rb =
        Some (0, fs_consumed fs + 1, args,
              write_chars C rb
                (''0x'' @ replicate (unat (fs_size fs) - length (number_chars (unat v) 16)) CHR ''0''
                 @ number_chars (unat v) 16))"
    if "started fs" "c_at fmt (unat (fs_consumed fs)) = CHR ''p''" for fs fmt
    using fs_loop_pointer [OF that, of C v args rb] by (simp only: length_number_chars)
  have plain: "print_handle_format_string C (CHR ''%'' # CHR ''p'' # rest) (VA_int v # args) rb =
        Some (0, 2, args, write_chars C rb (''0x'' @ number_chars (unat v) 16))"
    by (simp add: after_percent [OF c(2)] state fs_prop_init_def c_at_def)
  have flag: "print_handle_format_string C (CHR ''%'' # CHR ''0'' # ds @ CHR ''p'' # rest)
            (VA_int v # args) rb =
          Some (0, of_nat (length ds) + 3, args,
                write_chars C rb
                  (''0x'' @ replicate (unat (parsed_width ds) - length (number_chars (unat v) 16))
                             CHR ''0''
                   @ number_chars (unat v) 16))"
    if "\<forall>d \<in> set ds. is_digit d" "length ds \<le> 253"
    using after_zero_flag(2) [OF that c, of rest]
    by (simp add: after_zero_flag(1) [OF that c] state fs_prop_init_def)
  have ex: "print 16 ''%p'' [VA_int 0xAB] (empty_ring 16) =
             Some (2, \<lparr>rb_start = 0, rb_end = 4, rb_full = False,
                        rb_buf = ''0xab'' @ replicate 12 NUL\<rparr>)"
    by (simp add: eval_simps)
  have len: "get_number_len (unat v) 16 = length (number_digits (unat v) 16)"
    using length_number_chars [of "unat v" 16] by (simp add: number_chars_def)
  have repr: "is_base_repr 16 (unat v) (number_digits (unat v) 16)"
    by (rule number_digits_repr) simp
  from state plain flag ex len repr show ?thesis
    by (intro conjI impI) (auto simp: number_chars_def unat_parsed_width)
qed

text \<open>
  The theorem at a conversion character \<^verbatim>\<open>p\<close> read with the width 6 and the flag
  \<open>attr_0len\<close> not set, and at the directive \<^verbatim>\<open>%04p\<close>, with the value \<^verbatim>\<open>0xAB\<close>.
\<close>

theorem pointer_conversion_witness:
  "fs_loop 16 ''%p'' [VA_int 0xAB]
     \<lparr>attr_0len = False, attr_size = False, fs_size = 6, numeric_mode = FS_NUM_DECIMAL,
      started = True, fs_consumed = 1\<rparr> (empty_ring 16) =
   Some (0, 2, [], \<lparr>rb_start = 0, rb_end = 8, rb_full = False,
                     rb_buf = ''0x0000ab'' @ replicate 8 NUL\<rparr>)
   \<and> print_handle_format_string 16 ''%04p'' [VA_int 0xAB] (empty_ring 16) =
   Some (0, 4, [], \<lparr>rb_start = 0, rb_end = 6, rb_full = False,
                     rb_buf = ''0x00ab'' @ replicate 10 NUL\<rparr>)
   \<and> number_digits 171 16 = [11, 10]
   \<and> is_base_repr 16 171 [11, 10]"
  using pointer_conversion
    [where fs = "\<lparr>attr_0len = False, attr_size = False, fs_size = 6,
         numeric_mode = FS_NUM_DECIMAL, started = True, fs_consumed = 1\<rparr>"
       and fmt = "''%p''" and C = 16 and v = "0xAB" and args = "[]" and rb = "empty_ring 16"
       and rest = "[]" and ds = "''4''"]
  by (simp add: c_at_def number_chars_def number_digits.simps empty_ring_def replicate_numeral
      ring_buffer_write_char_def is_digit_def parsed_width_def)

section \<open>Unrecognized conversion characters\<close>



section \<open>The value returned by the print driver\<close>

text \<open>
  Claim C1. The claim says that \<^verbatim>\<open>print\<close> returns the number of characters
  produced. The code returns its cursor in the template: on an empty ring buffer
  of 8 bytes, the template \<^verbatim>\<open>%d\<close> with the argument 123 writes the three characters
  \<^verbatim>\<open>123\<close> and returns 2.
\<close>

theorem print_returns_template_length:
  "print 8 ''%d'' [VA_int 123] (empty_ring 8) =
     Some (2, \<lparr>rb_start = 0, rb_end = 3, rb_full = False, rb_buf = ''123'' @ replicate 5 NUL\<rparr>)"
  by (simp add: eval_simps)

section \<open>Negative values\<close>

text \<open>
  Claim C2. The claim says that \<^verbatim>\<open>%d\<close> writes a negative value as \<^verbatim>\<open>-\<close> and the
  digits of its absolute value. The code passes the \<^verbatim>\<open>int\<close> to a \<^verbatim>\<open>uint64_t\<close>
  parameter and writes no sign: on an empty ring buffer of 32 bytes, the template
  \<^verbatim>\<open>%d\<close> with the argument -1 writes the 20 digits of \<open>2 ^ 64 - 1\<close>.
\<close>

theorem negative_int_printed_unsigned:
  "print 32 ''%d'' [VA_int (- 1)] (empty_ring 32) =
     Some (2, \<lparr>rb_start = 0, rb_end = 20, rb_full = False,
                rb_buf = ''18446744073709551615'' @ replicate 12 NUL\<rparr>)"
  by (simp add: eval_simps)

section \<open>Rewinding\<close>

text \<open>
  Claim C5. The claim says that \<^verbatim>\<open>ring_buffer_rewind\<close> returns the number of
  characters it removed, which is less than the length asked for when the buffer
  holds fewer. The code returns the length asked for whenever it is below
  \<open>BUF_MAX\<close>: on an empty ring buffer of 4 bytes, which holds no byte, a rewind by 2
  returns 2 and moves \<^verbatim>\<open>end\<close> to 2. (A rewind by 4, which is \<open>BUF_MAX\<close>, returns 0 and
  changes nothing, as the claim says.)
\<close>

theorem rewind_empty_returns_len:
  "ring_buffer_rewind 4 (empty_ring 4) 2 =
     (\<lparr>rb_start = 0, rb_end = 2, rb_full = False, rb_buf = replicate 4 NUL\<rparr>, 2)
   \<and> live_bytes 4 (empty_ring 4) = 0
   \<and> ring_buffer_rewind 4 (empty_ring 4) 4 = (empty_ring 4, 0)"
  by (simp add: ring_buffer_rewind_def empty_ring_def live_bytes_def zero_range.simps
      replicate_numeral)

section \<open>The bounded buffer-write\<close>

lemma unat_minus_1_size_t: "unat (- 1 :: size_t) = 4294967295"
  by (simp add: unsigned_minus_1_eq_mask mask_eq_exp_minus_1)

text \<open>
  Claim C4. The claim says that \<^verbatim>\<open>snprintf\<close> with a capacity \<open>len\<close>, also 0, stores
  at most \<open>len - 1\<close> bytes and one terminator. With \<open>len = 0\<close> the code computes
  \<^verbatim>\<open>to_copy = len - 1\<close> in \<^verbatim>\<open>size_t\<close>, which is \<open>2 ^ 32 - 1\<close> (and -1 as the \<^verbatim>\<open>int\<close>
  returned): for the empty template, where \<^verbatim>\<open>print\<close> returns 0, the \<^verbatim>\<open>memcpy\<close> of that
  many bytes leaves the storage of the ring buffer, and the call has no defined result.
\<close>

theorem snprintf_zero_capacity:
  "unat (snprintf_to_copy 0 0) = 4294967295
   \<and> sint (snprintf_to_copy 0 0) = - 1
   \<and> print 8 '''' [] (empty_ring 8) = Some (0, empty_ring 8)
   \<and> snprintf 8 True 0 '''' [] False (empty_ring 8) = None"
  by (simp add: snprintf_to_copy_def snprintf_def memcpy_ring_def print_def print_loop.simps
      c_at_def empty_ring_def unat_minus_1_size_t)

section \<open>Writing, then rewinding\<close>

lemma live_bytes_cases:
  assumes "rb_start rb < C" "rb_end rb < C" "\<not> rb_full rb"
  shows "live_bytes C rb =
     (if rb_start rb \<le> rb_end rb then rb_end rb - rb_start rb else rb_end rb + C - rb_start rb)"
proof (cases "rb_start rb \<le> rb_end rb")
  case True
  then have e: "rb_end rb + C - rb_start rb = (rb_end rb - rb_start rb) + C" by arith
  have "(rb_end rb + C - rb_start rb) mod C = (rb_end rb - rb_start rb) mod C"
    by (simp only: e mod_add_self2)
  also have "\<dots> = rb_end rb - rb_start rb"
    using assms(2) by simp
  finally show ?thesis using True assms(3) by (simp add: live_bytes_def)
next
  case False
  with assms show ?thesis by (simp add: live_bytes_def)
qed

lemma write_char_not_full:
  assumes "rb_start rb < C" "rb_end rb < C" "\<not> rb_full rb" "live_bytes C rb + 1 < C"
  shows "ring_buffer_write_char C rb c =
           rb\<lparr>rb_buf := (rb_buf rb)[rb_end rb := c], rb_end := (rb_end rb + 1) mod C\<rparr>"
    and "live_bytes C (ring_buffer_write_char C rb c) = live_bytes C rb + 1"
proof -
  have ne: "(rb_end rb + 1) mod C \<noteq> rb_start rb"
  proof
    assume eq: "(rb_end rb + 1) mod C = rb_start rb"
    show False
    proof (cases "rb_end rb + 1 < C")
      case True
      with eq assms show False by (simp add: live_bytes_cases split: if_splits)
    next
      case False
      with assms(2) have "rb_end rb + 1 = C" by simp
      with eq assms show False by (simp add: live_bytes_cases split: if_splits)
    qed
  qed
  with assms(3) show w: "ring_buffer_write_char C rb c =
           rb\<lparr>rb_buf := (rb_buf rb)[rb_end rb := c], rb_end := (rb_end rb + 1) mod C\<rparr>"
    by (simp add: ring_buffer_write_char_def)
  show "live_bytes C (ring_buffer_write_char C rb c) = live_bytes C rb + 1"
  proof (cases "rb_end rb + 1 < C")
    case True
    with assms ne show ?thesis
      by (simp add: w live_bytes_cases split: if_splits)
  next
    case False
    with assms(2) have "rb_end rb + 1 = C" by simp
    with assms ne show ?thesis
      by (simp add: w live_bytes_cases split: if_splits)
  qed
qed

lemma write_chars_fields:
  assumes "rb_start rb < C" "rb_end rb < C" "\<not> rb_full rb" "live_bytes C rb + length cs < C"
  shows "rb_start (write_chars C rb cs) = rb_start rb
       \<and> \<not> rb_full (write_chars C rb cs)
       \<and> rb_end (write_chars C rb cs) = (rb_end rb + length cs) mod C"
  using assms
proof (induction cs arbitrary: rb)
  case Nil
  then show ?case by simp
next
  case (Cons c cs)
  let ?rb = "ring_buffer_write_char C rb c"
  from Cons.prems have l: "live_bytes C rb + 1 < C" by simp
  note w = write_char_not_full [OF Cons.prems(1,2,3) l, of c]
  have "live_bytes C ?rb + length cs < C"
    using Cons.prems(4) by (simp only: w(2)) simp
  moreover have "rb_start ?rb < C" "rb_end ?rb < C" "\<not> rb_full ?rb"
    using Cons.prems by (simp_all add: w(1))
  ultimately have "rb_start (write_chars C ?rb cs) = rb_start ?rb
       \<and> \<not> rb_full (write_chars C ?rb cs)
       \<and> rb_end (write_chars C ?rb cs) = (rb_end ?rb + length cs) mod C"
    by (intro Cons.IH)
  then show ?case
    by (simp add: w(1) mod_add_left_eq)
qed


lemma rewind_fields:
  assumes "e < (C::nat)" "n < C"
  shows "(if (e + n) mod C \<ge> n then (e + n) mod C - n else C - n + (e + n) mod C) = e"
proof (cases "e + n < C")
  case True
  then have "(e + n) mod C = e + n" by simp
  then show ?thesis by simp
next
  case False
  with assms have "(e + n) mod C = e + n - C"
    by (simp add: mod_if)
  with assms False show ?thesis by simp
qed

text \<open>
  Writes that do not saturate the ring buffer are undone by the rewind: on a ring
  buffer that is not full, with bytes \<open>cs\<close> that keep the number of bytes held below
  \<open>BUF_MAX\<close>, writing \<open>cs\<close> and rewinding by \<open>length cs\<close> returns \<open>length cs\<close> and
  restores \<^verbatim>\<open>start\<close>, \<^verbatim>\<open>end\<close> and \<^verbatim>\<open>full\<close>.
\<close>

lemma write_then_rewind_restores:
  assumes "rb_start rb < C" "rb_end rb < C" "\<not> rb_full rb"
    and "live_bytes C rb + length cs < C"
  shows "snd (ring_buffer_rewind C (write_chars C rb cs) (length cs)) = length cs
       \<and> rb_start (fst (ring_buffer_rewind C (write_chars C rb cs) (length cs))) = rb_start rb
       \<and> rb_end (fst (ring_buffer_rewind C (write_chars C rb cs) (length cs))) = rb_end rb
       \<and> rb_full (fst (ring_buffer_rewind C (write_chars C rb cs) (length cs))) = rb_full rb"
proof -
  from assms(4) have n: "length cs < C" by simp
  note f = write_chars_fields [OF assms]
  have "(if (rb_end rb + length cs) mod C \<ge> length cs
         then (rb_end rb + length cs) mod C - length cs
         else C - length cs + (rb_end rb + length cs) mod C) = rb_end rb"
    using assms(2) n by (rule rewind_fields)
  then show ?thesis
    using n f assms(3) by (simp add: ring_buffer_rewind_def split: if_splits)
qed

text \<open>
  Claim C3. The claim says that writing \<open>n\<close> bytes and rewinding by \<open>n\<close> restores
  \<^verbatim>\<open>start\<close>, \<^verbatim>\<open>end\<close> and \<^verbatim>\<open>full\<close>, also when the writes saturate the ring buffer. The
  code does not: a ring buffer of 4 bytes holds \<^verbatim>\<open>ab\<close> (\<^verbatim>\<open>end\<close> is 2, \<^verbatim>\<open>full\<close> is
  false); writing \<^verbatim>\<open>cd\<close> stores both bytes, moves \<^verbatim>\<open>end\<close> to 3 and sets \<^verbatim>\<open>full\<close>; the
  rewind by 2 returns 2, moves \<^verbatim>\<open>end\<close> to 1 and leaves \<^verbatim>\<open>full\<close> set. It clears the
  older byte \<^verbatim>\<open>b\<close> and keeps the byte \<^verbatim>\<open>d\<close> written last.
\<close>

theorem rewind_after_saturating_write:
  "write_chars 4 \<lparr>rb_start = 0, rb_end = 2, rb_full = False, rb_buf = ''ab'' @ [NUL, NUL]\<rparr> ''cd''
     = \<lparr>rb_start = 0, rb_end = 3, rb_full = True, rb_buf = ''abcd''\<rparr>
   \<and> ring_buffer_rewind 4 \<lparr>rb_start = 0, rb_end = 3, rb_full = True, rb_buf = ''abcd''\<rparr> 2
     = (\<lparr>rb_start = 0, rb_end = 1, rb_full = True, rb_buf = [CHR ''a'', NUL, NUL, CHR ''d'']\<rparr>, 2)"
  by (simp add: ring_buffer_write_char_def ring_buffer_rewind_def zero_range.simps)

section \<open>The invariant of the ring buffer\<close>

lemma length_zero_range: "length (zero_range buf i b) = length buf"
proof (induction buf i b rule: zero_range.induct)
  case (1 buf i b)
  then show ?case by (subst zero_range.simps) simp
qed

lemma nth_zero_range:
  "k < length buf \<Longrightarrow> zero_range buf i b ! k = (if i \<le> k \<and> k < b then NUL else buf ! k)"
proof (induction buf i b rule: zero_range.induct)
  case (1 buf i b)
  show ?case
  proof (cases "i < b")
    case True
    with "1" show ?thesis
      by (subst zero_range.simps) (auto simp: nth_list_update)
  next
    case False
    then show ?thesis by (subst zero_range.simps) auto
  qed
qed

lemma write_char_live:
  assumes "rb_start rb < C" "rb_end rb < C" "\<not> rb_full rb"
  shows "live_bytes C (ring_buffer_write_char C rb c) = live_bytes C rb + 1"
proof (cases "(rb_end rb + 1) mod C = rb_start rb")
  case True
  have "live_bytes C rb + 1 = C"
  proof (cases "rb_end rb + 1 < C")
    case less: True
    with True assms show ?thesis by (simp add: live_bytes_cases split: if_splits)
  next
    case False
    with assms(2) have "rb_end rb + 1 = C" by simp
    with True assms show ?thesis by (simp add: live_bytes_cases split: if_splits)
  qed
  with True assms(3) show ?thesis
    by (simp add: ring_buffer_write_char_def live_bytes_def)
next
  case False
  let ?rb = "rb\<lparr>rb_buf := (rb_buf rb)[rb_end rb := c], rb_end := (rb_end rb + 1) mod C\<rparr>"
  from False assms(3) have w: "ring_buffer_write_char C rb c = ?rb"
    by (simp add: ring_buffer_write_char_def)
  have "live_bytes C ?rb = live_bytes C rb + 1"
  proof (cases "rb_end rb + 1 < C")
    case True
    with assms False show ?thesis
      by (auto simp: live_bytes_cases split: if_splits)
  next
    case nl: False
    with assms(2) have "rb_end rb + 1 = C" by simp
    with assms False show ?thesis
      by (auto simp: live_bytes_cases split: if_splits)
  qed
  with w show ?thesis by simp
qed

lemma write_char_invariant:
  assumes "ring_invariant C rb"
  shows "ring_invariant C (ring_buffer_write_char C rb c)"
  using assms by (auto simp: ring_invariant_def ring_buffer_write_char_def)

lemma rewind_bounds:
  assumes "rb_start rb < C" "rb_end rb < C"
  shows "rb_start (fst (ring_buffer_rewind C rb n)) = rb_start rb"
    and "rb_full (fst (ring_buffer_rewind C rb n)) = rb_full rb"
    and "rb_end (fst (ring_buffer_rewind C rb n)) < C"
  using assms by (auto simp: ring_buffer_rewind_def)

text \<open>
  Claim C9, amended. From a state where \<^verbatim>\<open>start\<close> and \<^verbatim>\<open>end\<close> are below \<open>BUF_MAX\<close>
  and \<^verbatim>\<open>full\<close> implies that the slot after \<^verbatim>\<open>end\<close> is \<^verbatim>\<open>start\<close>: writing a character
  and draining keep this invariant; rewinding keeps \<^verbatim>\<open>start\<close> and \<^verbatim>\<open>end\<close> below
  \<open>BUF_MAX\<close>, and the whole invariant when \<^verbatim>\<open>full\<close> is false. While \<^verbatim>\<open>full\<close> is false
  the number of bytes held, \<open>(end - start) mod BUF_MAX\<close>, grows by one with each
  character written (the write that sets \<^verbatim>\<open>full\<close> brings it to \<open>BUF_MAX\<close>); a write
  to a full buffer changes nothing; after a drain the number is 0.
\<close>

theorem ring_operations_preserve_invariant:
  assumes "ring_invariant C rb"
  shows "ring_invariant C (ring_buffer_write_char C rb c)
       \<and> ring_invariant C (fst (print_and_reset_buffer C S rb log))
       \<and> rb_start (fst (ring_buffer_rewind C rb n)) < C
       \<and> rb_end (fst (ring_buffer_rewind C rb n)) < C
       \<and> (\<not> rb_full rb \<longrightarrow> ring_invariant C (fst (ring_buffer_rewind C rb n)))
       \<and> (\<not> rb_full rb \<longrightarrow>
            live_bytes C (ring_buffer_write_char C rb c) = live_bytes C rb + 1)
       \<and> (rb_full rb \<longrightarrow> ring_buffer_write_char C rb c = rb)
       \<and> live_bytes C (fst (print_and_reset_buffer C S rb log)) = 0"
proof -
  from assms have b: "rb_start rb < C" "rb_end rb < C"
    by (simp_all add: ring_invariant_def)
  then have C: "0 < C" by simp
  note r = rewind_bounds [OF b, of n]
  have "ring_invariant C (ring_buffer_write_char C rb c)"
    using assms by (rule write_char_invariant)
  moreover have "ring_invariant C (fst (print_and_reset_buffer C S rb log))"
    using C by (simp add: ring_invariant_def print_and_reset_buffer_def)
  moreover have "\<not> rb_full rb \<longrightarrow> ring_invariant C (fst (ring_buffer_rewind C rb n))"
    using r b by (simp add: ring_invariant_def)
  moreover have "\<not> rb_full rb \<longrightarrow>
            live_bytes C (ring_buffer_write_char C rb c) = live_bytes C rb + 1"
    using b by (simp add: write_char_live)
  moreover have "rb_full rb \<longrightarrow> ring_buffer_write_char C rb c = rb"
    by (simp add: ring_buffer_write_char_def)
  moreover have "live_bytes C (fst (print_and_reset_buffer C S rb log)) = 0"
    using C by (simp add: live_bytes_def print_and_reset_buffer_def)
  ultimately show ?thesis using r b by simp
qed

text \<open>The theorem on a ring buffer of 4 bytes that holds 3: the write saturates it.\<close>

theorem ring_operations_preserve_invariant_witness:
  "ring_invariant 4 \<lparr>rb_start = 0, rb_end = 3, rb_full = False, rb_buf = ''abc'' @ [NUL]\<rparr>
   \<and> ring_invariant 4
       (ring_buffer_write_char 4
          \<lparr>rb_start = 0, rb_end = 3, rb_full = False, rb_buf = ''abc'' @ [NUL]\<rparr> CHR ''d'')
   \<and> live_bytes 4
       (ring_buffer_write_char 4
          \<lparr>rb_start = 0, rb_end = 3, rb_full = False, rb_buf = ''abc'' @ [NUL]\<rparr> CHR ''d'') = 4"
  using ring_operations_preserve_invariant
    [of 4 "\<lparr>rb_start = 0, rb_end = 3, rb_full = False, rb_buf = ''abc'' @ [NUL]\<rparr>"
        "CHR ''d''" 5 "[]" 1]
  by (simp add: ring_invariant_def live_bytes_def)

text \<open>
  Claim C9 as stated fails at its last part, "full implies start = end": on a ring
  buffer of 4 bytes that holds 3 (\<^verbatim>\<open>start\<close> is 0, \<^verbatim>\<open>end\<close> is 3), writing one character
  sets \<^verbatim>\<open>full\<close> and leaves \<^verbatim>\<open>end\<close> at 3.
\<close>

theorem spec_invariant_counterexample:
  "spec_invariant 4 \<lparr>rb_start = 0, rb_end = 3, rb_full = False, rb_buf = ''abc'' @ [NUL]\<rparr>
   \<and> \<not> spec_invariant 4
         (ring_buffer_write_char 4
            \<lparr>rb_start = 0, rb_end = 3, rb_full = False, rb_buf = ''abc'' @ [NUL]\<rparr> CHR ''d'')"
  by (simp add: spec_invariant_def ring_buffer_write_char_def)

section \<open>Draining\<close>

text \<open>
  Claim C10, amended. When \<^verbatim>\<open>start\<close> and \<^verbatim>\<open>end\<close> are equal,
  \<^verbatim>\<open>print_and_reset_buffer\<close> sends nothing to the log channel, sets \<^verbatim>\<open>start\<close> and
  \<^verbatim>\<open>end\<close> to 0 and \<^verbatim>\<open>full\<close> to false, and clears the first \<open>BUF_MAX\<close> bytes of the
  storage. A ring buffer that writes have saturated is not in that case: with
  \<^verbatim>\<open>start\<close> at 0 and a capacity above 1, \<^verbatim>\<open>end\<close> is \<open>BUF_MAX - 1\<close>, and the drain sends
  the \<open>BUF_MAX - 1\<close> bytes before \<^verbatim>\<open>end\<close> in one call.
\<close>

theorem drain_of_equal_cursors:
  "(rb_start rb = rb_end rb \<longrightarrow>
      snd (print_and_reset_buffer C S rb log) = log
      \<and> rb_start (fst (print_and_reset_buffer C S rb log)) = 0
      \<and> rb_end (fst (print_and_reset_buffer C S rb log)) = 0
      \<and> \<not> rb_full (fst (print_and_reset_buffer C S rb log))
      \<and> length (rb_buf (fst (print_and_reset_buffer C S rb log))) = length (rb_buf rb)
      \<and> (\<forall>k < C. k < length (rb_buf rb) \<longrightarrow>
            rb_buf (fst (print_and_reset_buffer C S rb log)) ! k = NUL))
   \<and> (ring_invariant C rb \<and> rb_full rb \<and> rb_start rb = 0 \<and> 1 < C \<longrightarrow>
        rb_start rb \<noteq> rb_end rb
        \<and> snd (print_and_reset_buffer C S rb log)
            = log @ [(int C - 1, take (C - 1) (rb_buf rb))])"
proof -
  have "rb_end rb = C - 1" if "ring_invariant C rb" "rb_full rb" "rb_start rb = 0" "1 < C"
  proof -
    from that have "(rb_end rb + 1) mod C = 0" "rb_end rb < C"
      by (simp_all add: ring_invariant_def)
    then show ?thesis
      by (cases "rb_end rb + 1 < C") auto
  qed
  moreover have "nat (int C - 1) = C - 1"
    by (simp add: nat_diff_distrib)
  ultimately show ?thesis
    by (auto simp: print_and_reset_buffer_def sys_log_def length_zero_range nth_zero_range)
qed

text \<open>The theorem on two full ring buffers of 4 bytes, with \<^verbatim>\<open>end\<close> at 0 and at 3.\<close>

theorem drain_of_equal_cursors_witness:
  "snd (print_and_reset_buffer 4 5
          \<lparr>rb_start = 0, rb_end = 0, rb_full = True, rb_buf = ''abcd''\<rparr> []) = []
   \<and> snd (print_and_reset_buffer 4 5
          \<lparr>rb_start = 0, rb_end = 3, rb_full = True, rb_buf = ''abcd''\<rparr> []) = [(3, ''abc'')]"
  using drain_of_equal_cursors
      [of "\<lparr>rb_start = 0, rb_end = 0, rb_full = True, rb_buf = ''abcd''\<rparr>" 4 5 "[]"]
    drain_of_equal_cursors
      [of "\<lparr>rb_start = 0, rb_end = 3, rb_full = True, rb_buf = ''abcd''\<rparr>" 4 5 "[]"]
  by (simp add: ring_invariant_def)

text \<open>
  Claim C10 as stated fails: four characters written to an empty ring buffer of 4
  bytes saturate it, \<^verbatim>\<open>full\<close> is set with \<^verbatim>\<open>start\<close> at 0 and \<^verbatim>\<open>end\<close> at 3, and the
  drain sends the three bytes \<^verbatim>\<open>abc\<close> to the log channel.
\<close>

theorem drain_of_saturated_counterexample:
  "write_chars 4 (empty_ring 4) ''abcd''
     = \<lparr>rb_start = 0, rb_end = 3, rb_full = True, rb_buf = ''abcd''\<rparr>
   \<and> snd (print_and_reset_buffer 4 5 (write_chars 4 (empty_ring 4) ''abcd'') [])
       = [(3, ''abc'')]"
  by (simp add: empty_ring_def replicate_numeral ring_buffer_write_char_def
      print_and_reset_buffer_def sys_log_def)

end
